theory Spec2Isabelle
  imports Main "HOL-Library.Word" "HOL-Library.Sublist"
begin

section \<open>Strings and machine integers\<close>

text \<open>
  A Go string is a sequence of bytes, here a \<open>string\<close> (a list of 8-bit characters).
  The texts this package reads come out of the browser driver's JSON replies and are
  valid UTF-8, so every byte of a multi-byte code point is at least \<open>0x80\<close> and an
  ASCII byte always stands for itself.

  \<open>int64\<close> and \<open>uint64\<close> are 64-bit words: \<open>+\<close>, \<open>-\<close> and \<open>*\<close> wrap around as
  Go's do, \<open>sint\<close> reads the two's complement value and \<open>unat\<close> the unsigned one.
\<close>

type_synonym int64 = "64 word"

type_synonym uint64 = "64 word"

datatype error =
    ErrSyntax          \<comment> \<open>\<open>strconv.ErrSyntax\<close>\<close>
  | ErrRange           \<comment> \<open>\<open>strconv.ErrRange\<close>\<close>
  | ErrDate            \<comment> \<open>any failure of \<open>dateparse.ParseLocal\<close>\<close>
  | ErrNoBalance       \<comment> \<open>"Unable to find account balance in page"\<close>
  | ErrNoHistory       \<comment> \<open>"No account history found in page"\<close>

subsection \<open>\<open>strings.Contains\<close>\<close>

fun Contains :: "string \<Rightarrow> string \<Rightarrow> bool" where
  "Contains [] substr = (substr = [])"
| "Contains (c # cs) substr = (prefix substr (c # cs) \<or> Contains cs substr)"

subsection \<open>\<open>strings.TrimSpace\<close>\<close>

text \<open>
  \<open>strings.TrimSpace\<close> removes the leading and the trailing white space, as Unicode
  defines it (\<open>unicode.IsSpace\<close>): the six ASCII characters tab, line feed, vertical tab,
  form feed, carriage return and space, then U+0085 and U+00A0, U+1680, U+2000 to U+200A,
  U+2028, U+2029, U+202F, U+205F and U+3000. \<open>space_encodings\<close> lists their UTF-8 byte
  sequences.
\<close>

definition space_encodings :: "string list" where
  "space_encodings =
     [[CHR 0x09], [CHR 0x0A], [CHR 0x0B], [CHR 0x0C], [CHR 0x0D], [CHR 0x20],
      [CHR 0xC2, CHR 0x85], [CHR 0xC2, CHR 0xA0],
      [CHR 0xE1, CHR 0x9A, CHR 0x80],
      [CHR 0xE2, CHR 0x80, CHR 0x80], [CHR 0xE2, CHR 0x80, CHR 0x81],
      [CHR 0xE2, CHR 0x80, CHR 0x82], [CHR 0xE2, CHR 0x80, CHR 0x83],
      [CHR 0xE2, CHR 0x80, CHR 0x84], [CHR 0xE2, CHR 0x80, CHR 0x85],
      [CHR 0xE2, CHR 0x80, CHR 0x86], [CHR 0xE2, CHR 0x80, CHR 0x87],
      [CHR 0xE2, CHR 0x80, CHR 0x88], [CHR 0xE2, CHR 0x80, CHR 0x89],
      [CHR 0xE2, CHR 0x80, CHR 0x8A],
      [CHR 0xE2, CHR 0x80, CHR 0xA8], [CHR 0xE2, CHR 0x80, CHR 0xA9],
      [CHR 0xE2, CHR 0x80, CHR 0xAF], [CHR 0xE2, CHR 0x81, CHR 0x9F],
      [CHR 0xE3, CHR 0x80, CHR 0x80]]"

text \<open>The length of the white-space code point a string starts with, 0 when there is none.\<close>

definition leading_space :: "string \<Rightarrow> nat" where
  "leading_space s =
     (case filter (\<lambda>e. prefix e s) space_encodings of [] \<Rightarrow> 0 | e # _ \<Rightarrow> length e)"

fun TrimLeft :: "string \<Rightarrow> string" where
  "TrimLeft [] = []"
| "TrimLeft (c # cs) =
     (if leading_space (c # cs) = 0 then c # cs
      else if leading_space (c # cs) = 1 then TrimLeft cs
      else if leading_space (c # cs) = 2 then TrimLeft (drop 1 cs)
      else TrimLeft (drop 2 cs))"

text \<open>
  A UTF-8 encoding read backwards is the reversed encoding, so the trailing white space
  of \<open>s\<close> is the leading white space of \<open>rev s\<close> with each encoding reversed.
\<close>

definition trailing_space :: "string \<Rightarrow> nat" where
  "trailing_space r =
     (case filter (\<lambda>e. prefix (rev e) r) space_encodings of [] \<Rightarrow> 0 | e # _ \<Rightarrow> length e)"

fun TrimRight_rev :: "string \<Rightarrow> string" where
  "TrimRight_rev [] = []"
| "TrimRight_rev (c # cs) =
     (if trailing_space (c # cs) = 0 then c # cs
      else if trailing_space (c # cs) = 1 then TrimRight_rev cs
      else if trailing_space (c # cs) = 2 then TrimRight_rev (drop 1 cs)
      else TrimRight_rev (drop 2 cs))"

definition TrimSpace :: "string \<Rightarrow> string" where
  "TrimSpace s = rev (TrimRight_rev (rev (TrimLeft s)))"

subsection \<open>\<open>strconv.ParseInt(s, 10, 64)\<close>\<close>

text \<open>
  The standard library's loop, at base 10 and 64 bits. \<open>cutoff\<close> is
  \<open>maxUint64/10 + 1\<close>, the smallest number whose tenfold overflows. The loop stops at
  the first byte that is not a digit (a syntax error) and at the first overflow (a range
  error), whichever comes first.
\<close>

definition is_digit :: "char \<Rightarrow> bool" where
  "is_digit c = (48 \<le> (of_char c :: nat) \<and> (of_char c :: nat) \<le> 57)"

definition digit_val :: "char \<Rightarrow> nat" where
  "digit_val c = of_char c - 48"

definition cutoff :: uint64 where
  "cutoff = 1844674407370955162"

fun ParseUint_loop :: "uint64 \<Rightarrow> string \<Rightarrow> error + uint64" where
  "ParseUint_loop n [] = Inr n"
| "ParseUint_loop n (c # cs) =
     (if \<not> is_digit c then Inl ErrSyntax
      else if n \<ge> cutoff then Inl ErrRange
      else let n' = n * 10; n1 = n' + of_nat (digit_val c)
           in if n1 < n' then Inl ErrRange else ParseUint_loop n1 cs)"

definition ParseUint :: "string \<Rightarrow> error + uint64" where
  "ParseUint s = (if s = [] then Inl ErrSyntax else ParseUint_loop 0 s)"

text \<open>
  \<open>ParseInt\<close> picks off one leading sign, converts the rest unsigned and checks the
  signed range: at most \<open>2^63 - 1\<close> without a minus sign, at most \<open>2^63\<close> with one.
\<close>

definition ParseInt :: "string \<Rightarrow> error + int64" where
  "ParseInt s =
     (if s = [] then Inl ErrSyntax
      else
        let neg = (hd s = CHR ''-'');
            s' = (if hd s = CHR ''+'' \<or> hd s = CHR ''-'' then tl s else s)
        in case ParseUint s' of
             Inl e \<Rightarrow> Inl e
           | Inr un \<Rightarrow>
               if \<not> neg \<and> un \<ge> 2 ^ 63 then Inl ErrRange
               else if neg \<and> un > 2 ^ 63 then Inl ErrRange
               else Inr (if neg then - un else un))"

section \<open>The money parser\<close>

text \<open>
  \<open>parseMoney\<close> maps every code point of \<open>"$,."\<close> to \<open>-1\<close>, which \<open>strings.Map\<close>
  drops, and keeps every other one; on valid UTF-8 that is the removal of the three
  ASCII bytes. The rest goes to \<open>strconv.ParseInt\<close>.
\<close>

definition parseMoney :: "string \<Rightarrow> error + int64" where
  "parseMoney v = ParseInt (filter (\<lambda>r. r \<notin> set ''$,.'') v)"

section \<open>The data model\<close>

text \<open>
  A \<open>time.Time\<close> is an instant; \<open>Equal\<close> compares instants, whatever the location
  they are shown in. The model is the number of nanoseconds since the zero value of the
  type, January 1 of year 1, 00:00:00 UTC, so that the zero \<open>Time\<close> is \<open>0\<close>,
  \<open>Equal\<close> is \<open>=\<close> and "before or at" is \<open>\<le>\<close>.
\<close>

type_synonym Time = int

definition calendar_day :: "Time \<Rightarrow> int" where
  "calendar_day t = t div 86400000000000"

text \<open>
  \<open>Index\<close> is a Go \<open>int\<close>. It only counts records of one slice, which cannot hold
  as many records as the type has values, so it is an unbounded \<open>int\<close> here.
\<close>

record HistoryRecord =
  Index :: int
  Date :: Time
  Type :: string
  Description :: string
  Debit :: int64
  Credit :: int64
  Balance :: int64

definition zeroRecord :: HistoryRecord where
  "zeroRecord = \<lparr>Index = 0, Date = 0, Type = [], Description = [],
                  Debit = 0, Credit = 0, Balance = 0\<rparr>"

text \<open>
  The page as the two selections read it: the texts of the cells (\<open>th, td\<close>) of every
  row (\<open>tr\<close>) of the history table, the header row first, and the texts of the elements
  that match \<open>AccountBalanceSelector\<close>. A count that fails is 0 and a text that fails
  is empty, as the code drops both errors.
\<close>

record Page =
  history_rows :: "string list list"
  balance_texts :: "string list"

text \<open>\<open>cells.At(j).Text()\<close> with its error dropped: a cell that is not there reads \<open>""\<close>.\<close>

definition Text_At :: "string list \<Rightarrow> nat \<Rightarrow> string" where
  "Text_At cells j = (if j < length cells then cells ! j else [])"

section \<open>The field handlers\<close>

text \<open>
  \<open>dateparse.ParseLocal\<close> belongs to a library outside this repository. It is the
  parameter \<open>pl\<close> of everything that reads a date: a function from the text to a
  \<open>Time\<close> or an error. A handler returns the record, updated when it succeeded, and
  its error.
\<close>

type_synonym ParseLocal = "string \<Rightarrow> error + Time"

type_synonym handler = "HistoryRecord \<Rightarrow> string \<Rightarrow> HistoryRecord \<times> error option"

definition DateFromString :: "ParseLocal \<Rightarrow> handler" where
  "DateFromString pl record v =
     (case pl (TrimSpace v) of
        Inl err \<Rightarrow> (record, Some err)
      | Inr date \<Rightarrow> (record\<lparr>Date := date\<rparr>, None))"

definition DebitFromString :: handler where
  "DebitFromString record v =
     (let v = TrimSpace v in
      if v = [] then (record, None)
      else case parseMoney v of
             Inl err \<Rightarrow> (record, Some err)
           | Inr debit \<Rightarrow> (record\<lparr>Debit := debit\<rparr>, None))"

definition CreditFromString :: handler where
  "CreditFromString record v =
     (let v = TrimSpace v in
      if v = [] then (record, None)
      else case parseMoney v of
             Inl err \<Rightarrow> (record, Some err)
           | Inr credit \<Rightarrow> (record\<lparr>Credit := credit\<rparr>, None))"

definition BalanceFromString :: handler where
  "BalanceFromString record v =
     (let v = TrimSpace v in
      if v = [] then (record, None)
      else case parseMoney v of
             Inl err \<Rightarrow> (record, Some err)
           | Inr balance \<Rightarrow> (record\<lparr>Balance := balance\<rparr>, None))"

definition TypeFromString :: handler where
  "TypeFromString record v = (record\<lparr>Type := TrimSpace v\<rparr>, None)"

definition DescriptionFromString :: handler where
  "DescriptionFromString record v = (record\<lparr>Description := TrimSpace v\<rparr>, None)"

definition DefaultHandlers :: "ParseLocal \<Rightarrow> string \<rightharpoonup> handler" where
  "DefaultHandlers pl =
     map_of [(''Date'', DateFromString pl),
             (''Type'', TypeFromString),
             (''Description'', DescriptionFromString),
             (''Debit'', DebitFromString),
             (''Credit'', CreditFromString),
             (''Account Balance'', BalanceFromString)]"

section \<open>The balance extractor\<close>

definition ParseAccountBalance :: "Page \<Rightarrow> error + int64" where
  "ParseAccountBalance page =
     (let selections = balance_texts page; count = length selections in
      if count = 0 then Inl ErrNoBalance
      else case parseMoney (Text_At selections (count - 1)) of
             Inl err \<Rightarrow> Inl err
           | Inr balance \<Rightarrow> Inr balance)"

section \<open>The history reconstruction\<close>

text \<open>
  One step of the inner loop, at column \<open>j\<close>: the handler registered for the header
  text updates the record; a header with no handler and a handler that fails leave it
  as it is (both are logged only).
\<close>

definition handle_field :: "ParseLocal \<Rightarrow> string list \<Rightarrow> string list \<Rightarrow> nat \<Rightarrow>
    HistoryRecord \<Rightarrow> HistoryRecord" where
  "handle_field pl fieldNames cells j record =
     (let v = Text_At cells j; field = fieldNames ! j in
      case DefaultHandlers pl field of
        None \<Rightarrow> record
      | Some method \<Rightarrow> fst (method record v))"

text \<open>The inner loop \<open>for j := 0; j < m; j++\<close>, from the zero record.\<close>

definition build_record :: "ParseLocal \<Rightarrow> string list \<Rightarrow> string list \<Rightarrow> HistoryRecord" where
  "build_record pl fieldNames cells =
     fold (handle_field pl fieldNames cells) [0..<length fieldNames] zeroRecord"

text \<open>
  The loop over the data rows, on the rows that remain. Its state is the running balance
  and the history so far; each record goes in front of the history.
\<close>

fun row_loop :: "ParseLocal \<Rightarrow> string list \<Rightarrow> bool \<Rightarrow> int64 \<Rightarrow> HistoryRecord list \<Rightarrow>
    string list list \<Rightarrow> int64 \<times> HistoryRecord list" where
  "row_loop pl fieldNames hasBalance balance history [] = (balance, history)"
| "row_loop pl fieldNames hasBalance balance history (cells # rest) =
     (let record = build_record pl fieldNames cells in
      if \<not> hasBalance
      then row_loop pl fieldNames hasBalance (balance + (Credit record - Debit record))
             (record\<lparr>Balance := balance\<rparr> # history) rest
      else row_loop pl fieldNames hasBalance balance (record # history) rest)"

text \<open>The last loop, which sets \<open>Index\<close>; its state is the counter and the cursor date.\<close>

fun index_loop :: "int \<Rightarrow> Time \<Rightarrow> HistoryRecord list \<Rightarrow> HistoryRecord list" where
  "index_loop index date [] = []"
| "index_loop index date (record # rest) =
     (if Date record = date
      then record\<lparr>Index := index + 1\<rparr> # index_loop (index + 1) date rest
      else record\<lparr>Index := 1\<rparr> # index_loop 1 (Date record) rest)"

text \<open>
  The loop over the header cells records the field names, which are the header texts
  themselves, and raises \<open>hasBalance\<close> as soon as one of them contains "Balance".
\<close>

definition hasBalance :: "string list \<Rightarrow> bool" where
  "hasBalance header = list_ex (\<lambda>text. Contains text ''Balance'') header"

text \<open>
  \<open>ParseAccountHistory\<close> returns the history and the error, as the Go function does;
  on both early returns the history is still the nil slice. The messages it logs are not
  part of the model.
\<close>

definition ParseAccountHistory :: "ParseLocal \<Rightarrow> Page \<Rightarrow> HistoryRecord list \<times> error option" where
  "ParseAccountHistory pl page =
     (let rows = history_rows page; n = length rows in
      if n = 0 then ([], Some ErrNoHistory)
      else
        let fieldNames = rows ! 0
        in case (if \<not> hasBalance fieldNames then ParseAccountBalance page else Inr 0) of
             Inl err \<Rightarrow> ([], Some err)
           | Inr balance \<Rightarrow>
               let history = snd (row_loop pl fieldNames (hasBalance fieldNames) balance []
                                    (drop 1 rows))
               in (index_loop 0 0 history, None))"

section \<open>Reading decimal numbers\<close>

text \<open>The value of a string of digits, continuing from \<open>a\<close>.\<close>

fun dec_acc :: "nat \<Rightarrow> string \<Rightarrow> nat" where
  "dec_acc a [] = a"
| "dec_acc a (c # cs) = dec_acc (10 * a + digit_val c) cs"

text \<open>
  What the specification asks of the money parser, in its own words: the text without
  any \<open>$\<close>, \<open>,\<close> and \<open>.\<close>, read as a base-10 signed 64-bit integer. \<open>stripped\<close>
  removes the three characters one after the other; \<open>decimal_int64\<close> is the integer
  that an optional sign and at least one digit denote, when it lies between \<open>-2^63\<close>
  and \<open>2^63 - 1\<close>.
\<close>

definition stripped :: "string \<Rightarrow> string" where
  "stripped v = removeAll (CHR ''.'') (removeAll (CHR '','') (removeAll (CHR ''$'') v))"

definition decimal_int64 :: "string \<Rightarrow> int option" where
  "decimal_int64 s =
     (let signed = (s \<noteq> [] \<and> (hd s = CHR ''+'' \<or> hd s = CHR ''-''));
          ds = (if signed then tl s else s);
          v = (if s \<noteq> [] \<and> hd s = CHR ''-'' then - int (dec_acc 0 ds) else int (dec_acc 0 ds))
      in if ds \<noteq> [] \<and> list_all is_digit ds \<and> - (2 ^ 63) \<le> v \<and> v < 2 ^ 63
         then Some v else None)"

section \<open>A date parser for the numeric form\<close>

text \<open>
  Modelled from the spec: \<open>dateparse.ParseLocal\<close> is not part of the repository; the
  specification asks of it that it accept at least the numeric form \<open>MM/DD/YYYY\<close>.
  \<open>parseLocalNumeric\<close> reads that form, and the same followed by \<open> HH:MM\<close>, in a
  local zone without offset, and fails on everything else. The theorems below hold for
  every parser; this one evaluates the model on concrete pages.
\<close>

definition days_before_year :: "int \<Rightarrow> int" where
  "days_before_year y = 365 * (y - 1) + (y - 1) div 4 - (y - 1) div 100 + (y - 1) div 400"

definition leap_year :: "int \<Rightarrow> bool" where
  "leap_year y = (y mod 4 = 0 \<and> (y mod 100 \<noteq> 0 \<or> y mod 400 = 0))"

definition days_in_month :: "int \<Rightarrow> int list" where
  "days_in_month y = [31, if leap_year y then 29 else 28, 31, 30, 31, 30, 31, 31, 30, 31, 30, 31]"

definition number :: "string \<Rightarrow> int option" where
  "number s = (if s \<noteq> [] \<and> list_all is_digit s then Some (int (dec_acc 0 s)) else None)"

definition civil_time :: "int \<Rightarrow> int \<Rightarrow> int \<Rightarrow> int \<Rightarrow> int \<Rightarrow> error + Time" where
  "civil_time y mo d h mi =
     (if 1 \<le> y \<and> 1 \<le> mo \<and> mo \<le> 12 \<and> 1 \<le> d \<and> d \<le> days_in_month y ! nat (mo - 1)
         \<and> h < 24 \<and> mi < 60
      then Inr ((((days_before_year y + sum_list (take (nat (mo - 1)) (days_in_month y)) + (d - 1))
                   * 24 + h) * 60 + mi) * 60000000000)
      else Inl ErrDate)"

text \<open>
  Modelled from the spec: the date parser itself, \<open>dateparse.ParseLocal\<close>, on the two
  numeric forms.
\<close>

definition parseLocalNumeric :: ParseLocal where
  "parseLocalNumeric s =
     (if (length s = 10 \<or> length s = 16 \<and> s ! 10 = CHR '' '' \<and> s ! 13 = CHR '':'')
         \<and> s ! 2 = CHR ''/'' \<and> s ! 5 = CHR ''/''
      then case (number (take 2 s), number (take 2 (drop 3 s)), number (take 4 (drop 6 s)),
                 if length s = 10 then Some 0 else number (take 2 (drop 11 s)),
                 if length s = 10 then Some 0 else number (take 2 (drop 14 s))) of
             (Some mo, Some d, Some y, Some h, Some mi) \<Rightarrow> civil_time y mo d h mi
           | _ \<Rightarrow> Inl ErrDate
      else Inl ErrDate)"

section \<open>The running balance as a chain\<close>

text \<open>
  \<open>balance_chain b h\<close>: in the history \<open>h\<close>, oldest record first, every balance is
  the next (newer) record's balance plus that record's credit minus its debit, and \<open>b\<close>
  continues the chain in front of the first record. It is what the row loop keeps true
  of its running balance and its history.
\<close>

fun balance_chain :: "int64 \<Rightarrow> HistoryRecord list \<Rightarrow> bool" where
  "balance_chain b [] = True"
| "balance_chain b (r # rs) =
     (b = Balance r + (Credit r - Debit r) \<and> balance_chain (Balance r) rs)"

section \<open>Example pages\<close>

text \<open>
  Pages on which the model is evaluated below, each with the history that
  \<open>ParseAccountHistory\<close> returns for it. A credit-card history, newest row first, with
  no balance column:
\<close>

definition page_newest_first :: Page where
  "page_newest_first =
     \<lparr>history_rows =
        [[''Date'', ''Description'', ''Debit'', ''Credit''],
         [''01/03/2023'', ''Refund'', '''', ''4.50''],
         [''01/02/2023'', ''Coffee'', ''4.50'', '''']],
      balance_texts = [''$100.00'']\<rparr>"

definition out_newest_first :: "HistoryRecord list" where
  "out_newest_first =
     [\<lparr>Index = 1, Date = 63808214400000000000, Type = [], Description = ''Coffee'',
        Debit = 450, Credit = 0, Balance = 10450\<rparr>,
      \<lparr>Index = 1, Date = 63808300800000000000, Type = [], Description = ''Refund'',
        Debit = 0, Credit = 450, Balance = 10000\<rparr>]"

text \<open>A checking-account history with a balance column, listed oldest row first:\<close>

definition page_oldest_first :: Page where
  "page_oldest_first =
     \<lparr>history_rows =
        [[''Date'', ''Description'', ''Debit'', ''Credit'', ''Account Balance''],
         [''01/02/2023'', ''Coffee'', ''4.50'', '''', ''95.50''],
         [''01/03/2023'', ''Refund'', '''', ''4.50'', ''100.00'']],
      balance_texts = []\<rparr>"

definition out_oldest_first :: "HistoryRecord list" where
  "out_oldest_first =
     [\<lparr>Index = 1, Date = 63808300800000000000, Type = [], Description = ''Refund'',
        Debit = 0, Credit = 450, Balance = 10000\<rparr>,
      \<lparr>Index = 1, Date = 63808214400000000000, Type = [], Description = ''Coffee'',
        Debit = 450, Credit = 0, Balance = 9550\<rparr>]"

text \<open>Three transactions of one day with their times of day, and a row whose date cannot be read:\<close>

definition page_times :: Page where
  "page_times =
     \<lparr>history_rows =
        [[''Date'', ''Description'', ''Account Balance''],
         [''01/03/2023 14:00'', ''Transfer'', ''30.00''],
         [''01/03/2023 09:30'', ''Deposit'', ''20.00''],
         [''01/03/2023 09:30'', ''Coffee'', ''10.00''],
         [''pending'', ''Hold'', ''5.00'']],
      balance_texts = []\<rparr>"

definition out_times :: "HistoryRecord list" where
  "out_times =
     [\<lparr>Index = 1, Date = 0, Type = [], Description = ''Hold'',
        Debit = 0, Credit = 0, Balance = 500\<rparr>,
      \<lparr>Index = 1, Date = 63808335000000000000, Type = [], Description = ''Coffee'',
        Debit = 0, Credit = 0, Balance = 1000\<rparr>,
      \<lparr>Index = 2, Date = 63808335000000000000, Type = [], Description = ''Deposit'',
        Debit = 0, Credit = 0, Balance = 2000\<rparr>,
      \<lparr>Index = 1, Date = 63808351200000000000, Type = [], Description = ''Transfer'',
        Debit = 0, Credit = 0, Balance = 3000\<rparr>]"

text \<open>A table with its header row only, a page without any row, and a page without a balance element:\<close>

definition page_header_only :: Page where
  "page_header_only =
     \<lparr>history_rows = [[''Date'', ''Description'', ''Debit'', ''Credit'', ''Account Balance'']],
      balance_texts = []\<rparr>"

definition page_empty :: Page where
  "page_empty = \<lparr>history_rows = [], balance_texts = []\<rparr>"

definition page_no_seed :: Page where
  "page_no_seed =
     \<lparr>history_rows =
        [[''Date'', ''Description'', ''Debit'', ''Credit''],
         [''01/03/2023'', ''Refund'', '''', ''4.50'']],
      balance_texts = []\<rparr>"

text \<open>A debit cell with a minus sign:\<close>

definition page_negative_debit :: Page where
  "page_negative_debit =
     \<lparr>history_rows =
        [[''Date'', ''Description'', ''Debit'', ''Credit''],
         [''01/03/2023'', ''Reversal'', ''-5.00'', '''']],
      balance_texts = [''$100.00'']\<rparr>"

definition out_negative_debit :: "HistoryRecord list" where
  "out_negative_debit =
     [\<lparr>Index = 1, Date = 63808300800000000000, Type = [], Description = ''Reversal'',
        Debit = - 500, Credit = 0, Balance = 10000\<rparr>]"

section \<open>The integer parser reads decimal numbers\<close>

lemma dec_acc_ge: "a \<le> dec_acc a ds"
proof (induction ds arbitrary: a)
  case Nil show ?case by simp
next
  case (Cons c cs)
  have "a \<le> 10 * a + digit_val c" by simp
  also have "\<dots> \<le> dec_acc (10 * a + digit_val c) cs" by (rule Cons.IH)
  finally show ?case by simp
qed

lemma digit_val_lt: "is_digit c \<Longrightarrow> digit_val c < 10"
  by (auto simp: is_digit_def digit_val_def)

lemma unat_cutoff: "unat cutoff = 1844674407370955162"
  by (simp add: cutoff_def)

text \<open>
  The two overflow tests of the loop together say that the next value does not fit 64
  bits; when it fits, the word arithmetic is the arithmetic of the numbers.
\<close>

lemma loop_step:
  fixes n :: uint64
  assumes d: "d < 10"
  shows "(n \<ge> cutoff \<or> n * 10 + of_nat d < n * 10) \<longleftrightarrow> 2 ^ 64 \<le> 10 * unat n + d"
    and "10 * unat n + d < 2 ^ 64 \<Longrightarrow> unat (n * 10 + of_nat d) = 10 * unat n + d"
proof -
  have u10: "unat (n * 10) = (unat n * 10) mod 2 ^ 64"
    by (simp add: unat_word_ariths)
  have ud: "unat (of_nat d :: uint64) = d"
    using d by (simp add: unat_of_nat)
  have us: "unat (n * 10 + of_nat d) = (unat (n * 10) + d) mod 2 ^ 64"
    using ud by (simp add: unat_word_ariths)
  show "10 * unat n + d < 2 ^ 64 \<Longrightarrow> unat (n * 10 + of_nat d) = 10 * unat n + d"
    using u10 us by (simp add: mult.commute)
  show "(n \<ge> cutoff \<or> n * 10 + of_nat d < n * 10) \<longleftrightarrow> 2 ^ 64 \<le> 10 * unat n + d"
  proof (cases "unat n < 1844674407370955162")
    case True
    then have small: "unat n * 10 < 2 ^ 64" by simp
    then have u10': "unat (n * 10) = unat n * 10" using u10 by simp
    have nc: "\<not> cutoff \<le> n" using True by (simp add: word_le_nat_alt unat_cutoff)
    have "n * 10 + of_nat d < n * 10 \<longleftrightarrow> (unat n * 10 + d) mod 2 ^ 64 < unat n * 10"
      by (simp add: word_less_nat_alt us u10')
    also have "\<dots> \<longleftrightarrow> 2 ^ 64 \<le> unat n * 10 + d"
    proof (cases "unat n * 10 + d < 2 ^ 64")
      case True then show ?thesis by simp
    next
      case False
      then have "(unat n * 10 + d) mod 2 ^ 64 = unat n * 10 + d - 2 ^ 64"
        using small d by (simp add: mod_if)
      then show ?thesis using False d by simp
    qed
    finally show ?thesis using nc by (simp add: mult.commute)
  next
    case False
    then have "cutoff \<le> n" by (simp add: word_le_nat_alt unat_cutoff)
    then show ?thesis using False by simp
  qed
qed

lemma loop_ok:
  "list_all is_digit ds \<Longrightarrow> dec_acc (unat n) ds < 2 ^ 64 \<Longrightarrow>
   ParseUint_loop n ds = Inr (of_nat (dec_acc (unat n) ds))"
proof (induction ds arbitrary: n)
  case Nil then show ?case by simp
next
  case (Cons c cs)
  let ?d = "digit_val c"
  have dg: "is_digit c" and rest: "list_all is_digit cs" using Cons.prems(1) by simp_all
  have d: "?d < 10" using dg by (rule digit_val_lt)
  have "10 * unat n + ?d \<le> dec_acc (10 * unat n + ?d) cs" by (rule dec_acc_ge)
  then have fit: "10 * unat n + ?d < 2 ^ 64" using Cons.prems(2) by simp
  then have noov: "\<not> (n \<ge> cutoff \<or> n * 10 + of_nat ?d < n * 10)"
    using loop_step(1)[OF d, of n] by simp
  have u: "unat (n * 10 + of_nat ?d) = 10 * unat n + ?d"
    using loop_step(2)[OF d fit] .
  have "ParseUint_loop (n * 10 + of_nat ?d) cs
        = Inr (of_nat (dec_acc (unat (n * 10 + of_nat ?d)) cs))"
    using Cons.prems(2) by (intro Cons.IH rest) (simp add: u)
  then show ?case using dg noov by (simp add: Let_def u)
qed

lemma loop_fail:
  "\<not> (list_all is_digit ds \<and> dec_acc (unat n) ds < 2 ^ 64) \<Longrightarrow>
   \<exists>e. ParseUint_loop n ds = Inl e"
proof (induction ds arbitrary: n)
  case Nil
  have "unat n < 2 ^ 64" using unsigned_less[of n] by simp
  then show ?case using Nil by simp
next
  case (Cons c cs)
  let ?d = "digit_val c"
  show ?case
  proof (cases "is_digit c")
    case False then show ?thesis by simp
  next
    case dg: True
    have d: "?d < 10" using dg by (rule digit_val_lt)
    show ?thesis
    proof (cases "10 * unat n + ?d < 2 ^ 64")
      case False
      then have "n \<ge> cutoff \<or> n * 10 + of_nat ?d < n * 10"
        using loop_step(1)[OF d, of n] by simp
      then show ?thesis using dg by (auto simp: Let_def)
    next
      case fit: True
      then have noov: "\<not> (n \<ge> cutoff \<or> n * 10 + of_nat ?d < n * 10)"
        using loop_step(1)[OF d, of n] by simp
      have u: "unat (n * 10 + of_nat ?d) = 10 * unat n + ?d"
        using loop_step(2)[OF d fit] .
      have "\<not> (list_all is_digit cs \<and> dec_acc (unat (n * 10 + of_nat ?d)) cs < 2 ^ 64)"
        using Cons.prems dg by (simp add: u)
      then have "\<exists>e. ParseUint_loop (n * 10 + of_nat ?d) cs = Inl e" by (rule Cons.IH)
      then show ?thesis using dg noov by (simp add: Let_def)
    qed
  qed
qed

lemma sint_small:
  fixes un :: "64 word"
  assumes "unat un < 2 ^ 63"
  shows "sint un = int (unat un)"
proof -
  have u: "uint un = int (unat un)" by simp
  have "int (unat un) < 2 ^ 63"
    using assms by (metis of_nat_less_iff of_nat_numeral of_nat_power)
  then have lt: "uint un < 2 ^ 63" using u by linarith
  have ge: "- (2 ^ 63) \<le> uint un"
  proof -
    have "- (2 ^ 63) \<le> (0::int)" by simp
    also have "0 \<le> uint un" by simp
    finally show ?thesis .
  qed
  have "sint (word_of_int (uint un) :: 64 word) = signed_take_bit (LENGTH(64) - 1) (uint un)"
    by (rule sint_sbintrunc')
  also have "\<dots> = signed_take_bit 63 (uint un)" by simp
  also have "\<dots> = uint un"
    using ge lt by (rule signed_take_bit_int_eq_self)
  finally show ?thesis by simp
qed

lemma sint_neg_small:
  fixes un :: "64 word"
  assumes "unat un \<le> 2 ^ 63"
  shows "sint (- un) = - int (unat un)"
proof -
  have u: "uint un = int (unat un)" by simp
  have "int (unat un) \<le> 2 ^ 63"
    using assms by (metis of_nat_le_iff of_nat_numeral of_nat_power)
  then have le: "- (2 ^ 63) \<le> - uint un" using u by linarith
  have lt: "- uint un < 2 ^ 63"
  proof -
    have "- uint un \<le> 0" by simp
    also have "(0::int) < 2 ^ 63" by simp
    finally show ?thesis .
  qed
  have eq: "- un = (word_of_int (- uint un) :: 64 word)"
    by simp
  have "sint (word_of_int (- uint un) :: 64 word) = signed_take_bit (LENGTH(64) - 1) (- uint un)"
    by (rule sint_sbintrunc')
  also have "\<dots> = signed_take_bit 63 (- uint un)" by simp
  also have "\<dots> = - uint un"
    using le lt by (rule signed_take_bit_int_eq_self)
  finally have "sint (- un) = - uint un" by (simp only: eq)
  then show ?thesis using u by linarith
qed

lemma ParseUint_ok:
  assumes "ds \<noteq> []" "list_all is_digit ds" "dec_acc 0 ds < 2 ^ 64"
  shows "ParseUint ds = Inr (of_nat (dec_acc 0 ds))"
  using assms loop_ok[of ds 0] by (simp add: ParseUint_def)

lemma ParseUint_fail:
  assumes "\<not> (ds \<noteq> [] \<and> list_all is_digit ds \<and> dec_acc 0 ds < 2 ^ 64)"
  shows "\<exists>e. ParseUint ds = Inl e"
  using assms loop_fail[of ds 0] by (auto simp: ParseUint_def)

lemma ParseInt_decimal:
  "case ParseInt s of Inl e \<Rightarrow> decimal_int64 s = None
                    | Inr v \<Rightarrow> decimal_int64 s = Some (sint v)"
proof (cases "s = []")
  case True
  then show ?thesis by (simp add: ParseInt_def decimal_int64_def)
next
  case ne: False
  define neg where "neg = (hd s = CHR ''-'')"
  define ds where "ds = (if hd s = CHR ''+'' \<or> hd s = CHR ''-'' then tl s else s)"
  define k where "k = dec_acc 0 ds"
  define v where "v = (if neg then - int k else int k)"
  have dec: "decimal_int64 s =
      (if ds \<noteq> [] \<and> list_all is_digit ds \<and> - (2 ^ 63) \<le> v \<and> v < 2 ^ 63 then Some v else None)"
    unfolding decimal_int64_def Let_def neg_def ds_def k_def v_def using ne by simp
  have pi: "ParseInt s = (case ParseUint ds of
             Inl e \<Rightarrow> Inl e
           | Inr un \<Rightarrow>
               if \<not> neg \<and> un \<ge> 2 ^ 63 then Inl ErrRange
               else if neg \<and> un > 2 ^ 63 then Inl ErrRange
               else Inr (if neg then - un else un))"
    unfolding ParseInt_def Let_def neg_def ds_def using ne by simp
  show ?thesis
  proof (cases "ds \<noteq> [] \<and> list_all is_digit ds \<and> k < 2 ^ 64")
    case False
    then obtain e where e: "ParseUint ds = Inl e"
      using ParseUint_fail[of ds] by (auto simp: k_def)
    have "\<not> (ds \<noteq> [] \<and> list_all is_digit ds \<and> - (2 ^ 63) \<le> v \<and> v < 2 ^ 63)"
    proof
      assume a: "ds \<noteq> [] \<and> list_all is_digit ds \<and> - (2 ^ 63) \<le> v \<and> v < 2 ^ 63"
      then have "(2::nat) ^ 64 \<le> k" using False by simp
      then have "(2::int) ^ 64 \<le> int k"
        by (metis of_nat_le_iff of_nat_numeral of_nat_power)
      then show False using a by (simp add: v_def split: if_splits)
    qed
    then show ?thesis using e by (simp add: pi dec)
  next
    case True
    define un :: uint64 where "un = of_nat k"
    have pu: "ParseUint ds = Inr un"
      using True ParseUint_ok[of ds] by (simp add: k_def un_def)
    have uk: "unat un = k" using True by (simp add: un_def unat_of_nat)
    have ge: "un \<ge> 2 ^ 63 \<longleftrightarrow> 2 ^ 63 \<le> k" by (simp add: word_le_nat_alt uk)
    have gt: "un > 2 ^ 63 \<longleftrightarrow> 2 ^ 63 < k" by (simp add: word_less_nat_alt uk)
    have ik: "\<And>b. (2 ^ 63 \<le> k) = ((2::int) ^ 63 \<le> int k)"
      by (metis of_nat_le_iff of_nat_numeral of_nat_power)
    have ik': "(2 ^ 63 < k) = ((2::int) ^ 63 < int k)"
      by (metis of_nat_less_iff of_nat_numeral of_nat_power)
    show ?thesis
    proof (cases neg)
      case False
      show ?thesis
      proof (cases "2 ^ 63 \<le> k")
        case big: True
        then have "\<not> v < 2 ^ 63" using False ik by (simp add: v_def)
        then show ?thesis using False big ge by (simp add: pi pu dec)
      next
        case small: False
        then have "sint un = int k" using sint_small[of un] by (simp add: uk)
        moreover have "- (2 ^ 63) \<le> v \<and> v < 2 ^ 63" using small False ik by (simp add: v_def)
        ultimately show ?thesis using False small True ge by (simp add: pi pu dec v_def)
      qed
    next
      case n: True
      show ?thesis
      proof (cases "2 ^ 63 < k")
        case big: True
        then have "\<not> - (2 ^ 63) \<le> v" using n ik' by (simp add: v_def)
        then show ?thesis using n big gt by (simp add: pi pu dec)
      next
        case small: False
        then have "sint (- un) = - int k" using sint_neg_small[of un] by (simp add: uk)
        moreover have "- (2 ^ 63) \<le> v \<and> v < 2 ^ 63" using small n ik' by (simp add: v_def)
        ultimately show ?thesis using n small True gt by (simp add: pi pu dec v_def)
      qed
    qed
  qed
qed

lemma stripped_filter: "stripped v = filter (\<lambda>r. r \<notin> set ''$,.'') v"
  by (induction v) (auto simp: stripped_def)

section \<open>The loops of the reconstruction\<close>

lemma index_loop_length: "length (index_loop idx date h) = length h"
  by (induction h arbitrary: idx date) auto

lemma index_loop_Date: "map Date (index_loop idx date h) = map Date h"
  by (induction h arbitrary: idx date) auto

lemma index_loop_Debit: "map Debit (index_loop idx date h) = map Debit h"
  by (induction h arbitrary: idx date) auto

lemma index_loop_Credit: "map Credit (index_loop idx date h) = map Credit h"
  by (induction h arbitrary: idx date) auto

lemma index_loop_Balance: "map Balance (index_loop idx date h) = map Balance h"
  by (induction h arbitrary: idx date) auto

lemma map_nth_eq: "map f xs = map g ys \<Longrightarrow> i < length xs \<Longrightarrow> f (xs ! i) = g (ys ! i)"
  by (metis length_map nth_map)

lemma row_loop_length:
  "length (snd (row_loop pl fn hb b h rows)) = length rows + length h"
  by (induction rows arbitrary: b h) (auto simp: Let_def)

lemma row_loop_Date:
  "map Date (snd (row_loop pl fn hb b h rows))
   = rev (map (\<lambda>cells. Date (build_record pl fn cells)) rows) @ map Date h"
  by (induction rows arbitrary: b h) (auto simp: Let_def)

lemma row_loop_Debit:
  "map Debit (snd (row_loop pl fn hb b h rows))
   = rev (map (\<lambda>cells. Debit (build_record pl fn cells)) rows) @ map Debit h"
  by (induction rows arbitrary: b h) (auto simp: Let_def)

lemma row_loop_Credit:
  "map Credit (snd (row_loop pl fn hb b h rows))
   = rev (map (\<lambda>cells. Credit (build_record pl fn cells)) rows) @ map Credit h"
  by (induction rows arbitrary: b h) (auto simp: Let_def)

lemma row_loop_chain:
  "balance_chain b h \<Longrightarrow>
   balance_chain (fst (row_loop pl fn False b h rows)) (snd (row_loop pl fn False b h rows))"
  by (induction rows arbitrary: b h) (auto simp: Let_def)

lemma row_loop_last:
  "h \<noteq> [] \<Longrightarrow> last (snd (row_loop pl fn hb b h rows)) = last h"
  by (induction rows arbitrary: b h) (auto simp: Let_def)

lemma balance_chain_nth:
  "balance_chain b h \<Longrightarrow> Suc i < length h \<Longrightarrow>
   Balance (h ! i) = Balance (h ! Suc i) + (Credit (h ! Suc i) - Debit (h ! Suc i))"
proof (induction h arbitrary: b i)
  case Nil then show ?case by simp
next
  case (Cons r rs)
  have tail: "balance_chain (Balance r) rs" using Cons.prems(1) by simp
  show ?case
  proof (cases i)
    case 0
    obtain r' rs' where rs: "rs = r' # rs'" using Cons.prems(2) by (cases rs) auto
    have "Balance r = Balance r' + (Credit r' - Debit r')" using tail unfolding rs by simp
    then show ?thesis unfolding 0 rs by simp
  next
    case (Suc j)
    have "Suc j < length rs" using Cons.prems(2) Suc by simp
    then have "Balance (rs ! j) = Balance (rs ! Suc j) + (Credit (rs ! Suc j) - Debit (rs ! Suc j))"
      using tail by (rule Cons.IH[rotated])
    then show ?thesis unfolding Suc by simp
  qed
qed

lemma balance_chain_map:
  "map Balance h' = map Balance h \<Longrightarrow> map Credit h' = map Credit h \<Longrightarrow>
   map Debit h' = map Debit h \<Longrightarrow> balance_chain b h \<Longrightarrow> balance_chain b h'"
proof (induction h arbitrary: b h')
  case Nil then show ?case by simp
next
  case (Cons r rs)
  obtain r' rs' where h': "h' = r' # rs'" using Cons.prems(1) by (cases h') auto
  have hd: "Balance r' = Balance r" "Credit r' = Credit r" "Debit r' = Debit r"
    using Cons.prems(1,2,3) unfolding h' by simp_all
  have tl: "map Balance rs' = map Balance rs" "map Credit rs' = map Credit rs"
      "map Debit rs' = map Debit rs"
    using Cons.prems(1,2,3) unfolding h' by simp_all
  have "balance_chain (Balance r) rs" using Cons.prems(4) by simp
  then have "balance_chain (Balance r) rs'" by (rule Cons.IH[OF tl])
  moreover have "b = Balance r + (Credit r - Debit r)" using Cons.prems(4) by simp
  ultimately show ?case unfolding h' using hd by simp
qed

text \<open>The index loop: the first index, and each index from its predecessor's.\<close>

lemma index_loop_step:
  "Suc i < length h \<Longrightarrow>
   Index (index_loop idx date h ! Suc i) =
     (if Date (h ! Suc i) = Date (h ! i) then Index (index_loop idx date h ! i) + 1 else 1)"
proof (induction h arbitrary: idx date i)
  case Nil then show ?case by simp
next
  case (Cons r rs)
  obtain r' rs' where rs: "rs = r' # rs'" using Cons.prems by (cases rs) auto
  show ?case
  proof (cases i)
    case 0
    then show ?thesis by (simp add: rs)
  next
    case (Suc j)
    then have "Suc j < length rs" using Cons.prems by simp
    then show ?thesis using Cons.IH[of j] Suc by simp
  qed
qed

section \<open>The reconstruction as a whole\<close>

lemma ParseAccountHistory_rows:
  assumes "history_rows page = header # data"
  shows "ParseAccountHistory pl page =
     (case (if \<not> hasBalance header
            then ParseAccountBalance page else Inr 0) of
        Inl err \<Rightarrow> ([], Some err)
      | Inr balance \<Rightarrow>
          (index_loop 0 0 (snd (row_loop pl header
             (hasBalance header) balance [] data)), None))"
  unfolding ParseAccountHistory_def Let_def assms by (simp split: sum.splits)

lemma ParseAccountHistory_success:
  assumes "ParseAccountHistory pl page = (out, None)"
  obtains header data balance where
    "history_rows page = header # data"
    "\<not> hasBalance header \<Longrightarrow> ParseAccountBalance page = Inr balance"
    "out = index_loop 0 0 (snd (row_loop pl header
             (hasBalance header) balance [] data))"
proof (cases "history_rows page")
  case Nil
  then have "ParseAccountHistory pl page = ([], Some ErrNoHistory)"
    by (simp add: ParseAccountHistory_def)
  then show ?thesis using assms by simp
next
  case (Cons header data)
  let ?hb = "hasBalance header"
  note eq = ParseAccountHistory_rows[OF Cons, of pl]
  show ?thesis
  proof (cases ?hb)
    case True
    then have "out = index_loop 0 0 (snd (row_loop pl header ?hb 0 [] data))"
      using eq assms by simp
    then show ?thesis using that[of header data 0] Cons True by simp
  next
    case False
    show ?thesis
    proof (cases "ParseAccountBalance page")
      case (Inl e)
      then show ?thesis using eq assms False by simp
    next
      case (Inr b)
      then have "out = index_loop 0 0 (snd (row_loop pl header ?hb b [] data))"
        using eq assms False by simp
      then show ?thesis using that[of header data b] Cons Inr by simp
    qed
  qed
qed

lemma ParseAccountHistory_index_loop:
  "\<exists>h. fst (ParseAccountHistory pl page) = index_loop 0 0 h"
proof (cases "snd (ParseAccountHistory pl page)")
  case None
  then have "ParseAccountHistory pl page = (fst (ParseAccountHistory pl page), None)"
    by (metis prod.collapse)
  then show ?thesis by (rule ParseAccountHistory_success) blast
next
  case (Some e)
  have "fst (ParseAccountHistory pl page) = []"
    using Some unfolding ParseAccountHistory_def Let_def
    by (auto split: if_splits sum.splits)
  then have "fst (ParseAccountHistory pl page) = index_loop 0 0 []" by simp
  then show ?thesis by blast
qed

lemma output_length:
  assumes rows: "history_rows page = header # data"
    and ok: "ParseAccountHistory pl page = (out, None)"
  shows "length out = length data"
proof -
  obtain header' data' balance where
    rows': "history_rows page = header' # data'" and
    out: "out = index_loop 0 0 (snd (row_loop pl header' (hasBalance header') balance [] data'))"
    using ok by (rule ParseAccountHistory_success)
  have "data' = data" using rows rows' by simp
  then show ?thesis unfolding out by (simp add: index_loop_length row_loop_length)
qed

text \<open>Without a balance column, the last record of the output carries the seed.\<close>

lemma last_record_has_seed:
  assumes rows: "history_rows page = header # data"
    and nb: "\<not> hasBalance header"
    and ok: "ParseAccountHistory pl page = (out, None)"
    and one: "out \<noteq> []"
  shows "ParseAccountBalance page = Inr (Balance (last out))"
proof -
  obtain seed where seed: "ParseAccountBalance page = Inr seed"
    using ok nb ParseAccountHistory_rows[OF rows, of pl]
    by (cases "ParseAccountBalance page") simp_all
  define h where "h = snd (row_loop pl header False seed [] data)"
  have out: "out = index_loop 0 0 h"
    using ok nb seed ParseAccountHistory_rows[OF rows, of pl] by (simp add: h_def)
  have "length data = length out" using output_length[OF rows ok] by simp
  then have "data \<noteq> []" using one by auto
  then obtain cells rest where data: "data = cells # rest" by (cases data) auto
  have "last h = (build_record pl header cells)\<lparr>Balance := seed\<rparr>"
    unfolding h_def data by (simp add: Let_def row_loop_last)
  then have lb: "Balance (last h) = seed" by simp
  have hne: "h \<noteq> []" using one out by auto
  have "Balance (last out) = last (map Balance out)" using one by (simp add: last_map)
  also have "\<dots> = last (map Balance h)" by (simp add: out index_loop_Balance)
  also have "\<dots> = Balance (last h)" using hne by (simp add: last_map)
  finally show ?thesis using seed lb by simp
qed

section \<open>The index pass\<close>

lemma index_loop_first: "index_loop 0 0 h \<noteq> [] \<Longrightarrow> Index (index_loop 0 0 h ! 0) = 1"
  by (cases h) simp_all

lemma index_loop_next:
  assumes "Suc i < length h"
  shows "Index (index_loop 0 0 h ! Suc i) =
     (if Date (index_loop 0 0 h ! Suc i) = Date (index_loop 0 0 h ! i)
      then Index (index_loop 0 0 h ! i) + 1 else 1)"
proof -
  have d: "\<And>k. k < length h \<Longrightarrow> Date (index_loop 0 0 h ! k) = Date (h ! k)"
    using map_nth_eq[OF index_loop_Date] by (simp add: index_loop_length)
  have "Date (index_loop 0 0 h ! Suc i) = Date (h ! Suc i)" using assms by (rule d)
  moreover have "Date (index_loop 0 0 h ! i) = Date (h ! i)" using assms by (intro d) simp
  ultimately show ?thesis using index_loop_step[OF assms, of 0 0] by simp
qed

text \<open>A list whose indices restart and continue in this way numbers each run of equal dates.\<close>

lemma run_position:
  assumes first: "out \<noteq> [] \<Longrightarrow> Index (out ! 0) = 1"
    and step: "\<And>i. Suc i < length out \<Longrightarrow> Index (out ! Suc i) =
       (if Date (out ! Suc i) = Date (out ! i) then Index (out ! i) + 1 else 1)"
  shows "i < length out \<Longrightarrow>
     Index (out ! i) = 1 + int (length (takeWhile (\<lambda>r. Date r = Date (out ! i)) (rev (take i out))))"
proof (induction i)
  case 0
  then show ?case using first by auto
next
  case (Suc i)
  have i: "i < length out" using Suc.prems by simp
  have tk: "rev (take (Suc i) out) = out ! i # rev (take i out)"
    using i by (simp add: take_Suc_conv_app_nth)
  show ?case
  proof (cases "Date (out ! Suc i) = Date (out ! i)")
    case True
    have "Index (out ! Suc i) = Index (out ! i) + 1" using step[OF Suc.prems] True by simp
    also have "\<dots> = 1 + int (length (takeWhile (\<lambda>r. Date r = Date (out ! i)) (rev (take i out)))) + 1"
      using Suc.IH[OF i] by simp
    finally show ?thesis unfolding tk using True by simp
  next
    case False
    have "Index (out ! Suc i) = 1" using step[OF Suc.prems] False by simp
    then show ?thesis unfolding tk using False by simp
  qed
qed

section \<open>Debit and credit of one record\<close>

lemma TrimLeft_subset: "set (TrimLeft s) \<subseteq> set s"
proof (induction s rule: TrimLeft.induct)
  case 1 show ?case by simp
next
  case (2 c cs)
  let ?n = "leading_space (c # cs)"
  have d1: "set (drop 1 cs) \<subseteq> set cs" and d2: "set (drop 2 cs) \<subseteq> set cs"
    by (rule set_drop_subset)+
  consider "?n = 0" | "?n = 1" | "?n = 2" | "?n \<noteq> 0" "?n \<noteq> 1" "?n \<noteq> 2" by blast
  then show ?case
  proof cases
    case 1 then show ?thesis by simp
  next
    case 2
    then have "set (TrimLeft cs) \<subseteq> set cs" using "2.IH"(1) by simp
    then show ?thesis using 2 by auto
  next
    case 3
    then have "set (TrimLeft (drop 1 cs)) \<subseteq> set (drop 1 cs)" using "2.IH"(2) by simp
    then have "set (TrimLeft (drop 1 cs)) \<subseteq> set cs" using d1 by (rule subset_trans)
    then show ?thesis using 3 by auto
  next
    case 4
    then have "set (TrimLeft (drop 2 cs)) \<subseteq> set (drop 2 cs)" using "2.IH"(3) by simp
    then have "set (TrimLeft (drop 2 cs)) \<subseteq> set cs" using d2 by (rule subset_trans)
    then show ?thesis using 4 by auto
  qed
qed

lemma TrimRight_rev_subset: "set (TrimRight_rev s) \<subseteq> set s"
proof (induction s rule: TrimRight_rev.induct)
  case 1 show ?case by simp
next
  case (2 c cs)
  let ?n = "trailing_space (c # cs)"
  have d1: "set (drop 1 cs) \<subseteq> set cs" and d2: "set (drop 2 cs) \<subseteq> set cs"
    by (rule set_drop_subset)+
  consider "?n = 0" | "?n = 1" | "?n = 2" | "?n \<noteq> 0" "?n \<noteq> 1" "?n \<noteq> 2" by blast
  then show ?case
  proof cases
    case 1 then show ?thesis by simp
  next
    case 2
    then have "set (TrimRight_rev cs) \<subseteq> set cs" using "2.IH"(1) by simp
    then show ?thesis using 2 by auto
  next
    case 3
    then have "set (TrimRight_rev (drop 1 cs)) \<subseteq> set (drop 1 cs)" using "2.IH"(2) by simp
    then have "set (TrimRight_rev (drop 1 cs)) \<subseteq> set cs" using d1 by (rule subset_trans)
    then show ?thesis using 3 by auto
  next
    case 4
    then have "set (TrimRight_rev (drop 2 cs)) \<subseteq> set (drop 2 cs)" using "2.IH"(3) by simp
    then have "set (TrimRight_rev (drop 2 cs)) \<subseteq> set cs" using d2 by (rule subset_trans)
    then show ?thesis using 4 by auto
  qed
qed

lemma TrimSpace_subset: "set (TrimSpace s) \<subseteq> set s"
  using TrimRight_rev_subset[of "rev (TrimLeft s)"] TrimLeft_subset[of s]
  by (auto simp: TrimSpace_def)

lemma stripped_subset: "set (stripped v) \<subseteq> set v"
  by (auto simp: stripped_filter)

lemma parseMoney_nonneg:
  assumes "parseMoney v = Inr x" and "CHR ''-'' \<notin> set v"
  shows "0 \<le> sint x"
proof -
  let ?s = "stripped v"
  have d: "decimal_int64 ?s = Some (sint x)"
    using ParseInt_decimal[of ?s] assms(1) by (simp add: parseMoney_def stripped_filter)
  have "CHR ''-'' \<notin> set ?s" using assms(2) stripped_subset[of v] by auto
  then have "\<not> (?s \<noteq> [] \<and> hd ?s = CHR ''-'')" by (cases ?s) auto
  then show ?thesis using d unfolding decimal_int64_def Let_def
    by (auto split: if_splits)
qed

lemma handle_field_Debit:
  "Debit (handle_field pl fn cells j r) =
     (if fn ! j = ''Debit'' \<and> TrimSpace (Text_At cells j) \<noteq> []
      then case parseMoney (TrimSpace (Text_At cells j)) of Inl e \<Rightarrow> Debit r | Inr d \<Rightarrow> d
      else Debit r)"
  by (simp add: handle_field_def DefaultHandlers_def Let_def DateFromString_def
      TypeFromString_def DescriptionFromString_def DebitFromString_def CreditFromString_def
      BalanceFromString_def split: sum.splits)

lemma handle_field_Credit:
  "Credit (handle_field pl fn cells j r) =
     (if fn ! j = ''Credit'' \<and> TrimSpace (Text_At cells j) \<noteq> []
      then case parseMoney (TrimSpace (Text_At cells j)) of Inl e \<Rightarrow> Credit r | Inr d \<Rightarrow> d
      else Credit r)"
  by (simp add: handle_field_def DefaultHandlers_def Let_def DateFromString_def
      TypeFromString_def DescriptionFromString_def DebitFromString_def CreditFromString_def
      BalanceFromString_def split: sum.splits)

lemma fold_invariant:
  "P s \<Longrightarrow> (\<And>x s. x \<in> set xs \<Longrightarrow> P s \<Longrightarrow> P (f x s)) \<Longrightarrow> P (fold f xs s)"
  by (induction xs arbitrary: s) auto

lemma build_record_Debit_blank:
  assumes "\<forall>j<length fn. fn ! j = ''Debit'' \<longrightarrow> TrimSpace (Text_At cells j) = []"
  shows "Debit (build_record pl fn cells) = 0"
  unfolding build_record_def
proof (rule fold_invariant[where P = "\<lambda>r::HistoryRecord. Debit r = 0"])
  show "Debit zeroRecord = 0" by (simp add: zeroRecord_def)
next
  fix j and r :: HistoryRecord assume "j \<in> set [0..<length fn]" and r: "Debit r = 0"
  then have "fn ! j = ''Debit'' \<longrightarrow> TrimSpace (Text_At cells j) = []" using assms by simp
  then show "Debit (handle_field pl fn cells j r) = 0"
    using r by (auto simp: handle_field_Debit)
qed

lemma build_record_Credit_blank:
  assumes "\<forall>j<length fn. fn ! j = ''Credit'' \<longrightarrow> TrimSpace (Text_At cells j) = []"
  shows "Credit (build_record pl fn cells) = 0"
  unfolding build_record_def
proof (rule fold_invariant[where P = "\<lambda>r::HistoryRecord. Credit r = 0"])
  show "Credit zeroRecord = 0" by (simp add: zeroRecord_def)
next
  fix j and r :: HistoryRecord assume "j \<in> set [0..<length fn]" and r: "Credit r = 0"
  then have "fn ! j = ''Credit'' \<longrightarrow> TrimSpace (Text_At cells j) = []" using assms by simp
  then show "Credit (handle_field pl fn cells j r) = 0"
    using r by (auto simp: handle_field_Credit)
qed

lemma build_record_Debit_nonneg:
  assumes "\<forall>j<length fn. fn ! j = ''Debit'' \<longrightarrow> CHR ''-'' \<notin> set (Text_At cells j)"
  shows "0 \<le> sint (Debit (build_record pl fn cells))"
  unfolding build_record_def
proof (rule fold_invariant[where P = "\<lambda>r::HistoryRecord. 0 \<le> sint (Debit r)"])
  show "0 \<le> sint (Debit zeroRecord)" by (simp add: zeroRecord_def)
next
  fix j and r :: HistoryRecord assume j: "j \<in> set [0..<length fn]" and r: "0 \<le> sint (Debit r)"
  show "0 \<le> sint (Debit (handle_field pl fn cells j r))"
  proof (cases "fn ! j = ''Debit'' \<and> TrimSpace (Text_At cells j) \<noteq> []")
    case False
    then show ?thesis using r by (auto simp: handle_field_Debit)
  next
    case True
    then have "CHR ''-'' \<notin> set (Text_At cells j)" using assms j by simp
    then have m: "CHR ''-'' \<notin> set (TrimSpace (Text_At cells j))"
      using TrimSpace_subset[of "Text_At cells j"] by auto
    show ?thesis
    proof (cases "parseMoney (TrimSpace (Text_At cells j))")
      case (Inl e)
      then show ?thesis using r True by (simp add: handle_field_Debit)
    next
      case (Inr d)
      then have "0 \<le> sint d" using m by (rule parseMoney_nonneg)
      then show ?thesis using Inr True by (simp add: handle_field_Debit)
    qed
  qed
qed

lemma build_record_Credit_nonneg:
  assumes "\<forall>j<length fn. fn ! j = ''Credit'' \<longrightarrow> CHR ''-'' \<notin> set (Text_At cells j)"
  shows "0 \<le> sint (Credit (build_record pl fn cells))"
  unfolding build_record_def
proof (rule fold_invariant[where P = "\<lambda>r::HistoryRecord. 0 \<le> sint (Credit r)"])
  show "0 \<le> sint (Credit zeroRecord)" by (simp add: zeroRecord_def)
next
  fix j and r :: HistoryRecord assume j: "j \<in> set [0..<length fn]" and r: "0 \<le> sint (Credit r)"
  show "0 \<le> sint (Credit (handle_field pl fn cells j r))"
  proof (cases "fn ! j = ''Credit'' \<and> TrimSpace (Text_At cells j) \<noteq> []")
    case False
    then show ?thesis using r by (auto simp: handle_field_Credit)
  next
    case True
    then have "CHR ''-'' \<notin> set (Text_At cells j)" using assms j by simp
    then have m: "CHR ''-'' \<notin> set (TrimSpace (Text_At cells j))"
      using TrimSpace_subset[of "Text_At cells j"] by auto
    show ?thesis
    proof (cases "parseMoney (TrimSpace (Text_At cells j))")
      case (Inl e)
      then show ?thesis using r True by (simp add: handle_field_Credit)
    next
      case (Inr d)
      then have "0 \<le> sint d" using m by (rule parseMoney_nonneg)
      then show ?thesis using Inr True by (simp add: handle_field_Credit)
    qed
  qed
qed

lemma absent_column: "name \<notin> set fn \<Longrightarrow> \<forall>j<length fn. fn ! j = name \<longrightarrow> Q j"
  by (metis nth_mem)

text \<open>The record of data row \<open>i\<close> is at position \<open>length data - 1 - i\<close> of the output.\<close>

lemma output_Debit_Credit:
  assumes rows: "history_rows page = header # data"
    and ok: "ParseAccountHistory pl page = (out, None)"
    and i: "i < length data"
  shows "Debit (out ! (length data - 1 - i)) = Debit (build_record pl header (data ! i))"
    and "Credit (out ! (length data - 1 - i)) = Credit (build_record pl header (data ! i))"
proof -
  obtain header' data' balance where
    rows': "history_rows page = header' # data'" and
    out': "out = index_loop 0 0 (snd (row_loop pl header'
             (hasBalance header') balance [] data'))"
    using ok by (rule ParseAccountHistory_success)
  have same: "header' = header" "data' = data" using rows rows' by simp_all
  note out = out'[unfolded same]
  have len: "length out = length data"
    unfolding out by (simp add: index_loop_length row_loop_length)
  have k: "length data - 1 - i < length out" using i len by simp
  have md: "map Debit out = rev (map (\<lambda>cells. Debit (build_record pl header cells)) data)"
    unfolding out by (simp add: index_loop_Debit row_loop_Debit)
  have mc: "map Credit out = rev (map (\<lambda>cells. Credit (build_record pl header cells)) data)"
    unfolding out by (simp add: index_loop_Credit row_loop_Credit)
  have idx: "length data - Suc (length data - 1 - i) = i" using i by simp
  have "Debit (out ! (length data - 1 - i)) = map Debit out ! (length data - 1 - i)"
    using k by simp
  also have "\<dots> = map (\<lambda>cells. Debit (build_record pl header cells)) data ! i"
    unfolding md using i idx by (simp add: rev_nth)
  finally show "Debit (out ! (length data - 1 - i)) = Debit (build_record pl header (data ! i))"
    using i by simp
  have "Credit (out ! (length data - 1 - i)) = map Credit out ! (length data - 1 - i)"
    using k by simp
  also have "\<dots> = map (\<lambda>cells. Credit (build_record pl header cells)) data ! i"
    unfolding mc using i idx by (simp add: rev_nth)
  finally show "Credit (out ! (length data - 1 - i)) = Credit (build_record pl header (data ! i))"
    using i by simp
qed

section \<open>The example pages evaluated\<close>

lemma eval_newest_first:
  "ParseAccountHistory parseLocalNumeric page_newest_first = (out_newest_first, None)"
  by code_simp

lemma eval_oldest_first:
  "ParseAccountHistory parseLocalNumeric page_oldest_first = (out_oldest_first, None)"
  by code_simp

lemma eval_times:
  "ParseAccountHistory parseLocalNumeric page_times = (out_times, None)"
  by code_simp

lemma eval_header_only:
  "ParseAccountHistory parseLocalNumeric page_header_only = ([], None)"
  by code_simp

lemma eval_negative_debit:
  "ParseAccountHistory parseLocalNumeric page_negative_debit = (out_negative_debit, None)"
  by code_simp

lemma rows_newest_first:
  "history_rows page_newest_first =
     [''Date'', ''Description'', ''Debit'', ''Credit'']
     # [[''01/03/2023'', ''Refund'', '''', ''4.50''], [''01/02/2023'', ''Coffee'', ''4.50'', '''']]"
  by (simp add: page_newest_first_def)

lemma no_balance_column_newest_first:
  "\<not> hasBalance [''Date'', ''Description'', ''Debit'', ''Credit'']"
  by code_simp

lemma seed_newest_first: "ParseAccountBalance page_newest_first = Inr 10000"
  by code_simp

section \<open>C1: the running balance\<close>

text \<open>
  C1, as the code has it. When the header has no balance column and the reconstruction
  succeeds, each record's balance is the balance of the next, more recent record of the
  output plus that record's credit minus its debit, in 64-bit arithmetic: the balances
  are rebuilt backwards in time. The chain starts at the most recent record, whose
  balance is the seed that the balance extractor returned.
\<close>

theorem running_balance_backward:
  assumes rows: "history_rows page = header # data"
    and nb: "\<not> hasBalance header"
    and ok: "ParseAccountHistory pl page = (out, None)"
  shows "(\<forall>i. Suc i < length out \<longrightarrow>
            Balance (out ! i) = Balance (out ! Suc i) + Credit (out ! Suc i) - Debit (out ! Suc i))
       \<and> (out \<noteq> [] \<longrightarrow> ParseAccountBalance page = Inr (Balance (last out)))"
proof -
  obtain seed where seed: "ParseAccountBalance page = Inr seed"
    using ok nb ParseAccountHistory_rows[OF rows, of pl]
    by (cases "ParseAccountBalance page") simp_all
  define h where "h = snd (row_loop pl header False seed [] data)"
  have out: "out = index_loop 0 0 h"
    using ok nb seed ParseAccountHistory_rows[OF rows, of pl] by (simp add: h_def)
  have "balance_chain (fst (row_loop pl header False seed [] data)) h"
    unfolding h_def by (rule row_loop_chain) simp
  then have chain: "balance_chain (fst (row_loop pl header False seed [] data)) out"
    unfolding out
    by (rule balance_chain_map[OF index_loop_Balance index_loop_Credit index_loop_Debit])
  have step: "Balance (out ! i) = Balance (out ! Suc i) + Credit (out ! Suc i) - Debit (out ! Suc i)"
    if "Suc i < length out" for i
    using balance_chain_nth[OF chain that] by simp
  have seeded: "out \<noteq> [] \<longrightarrow> ParseAccountBalance page = Inr (Balance (last out))"
    using last_record_has_seed[OF rows nb ok] by blast
  show ?thesis using step seeded by blast
qed

text \<open>
  On the page listed newest first, the older record's balance 10450 is the newer one's
  10000 plus its credit 450, and the newer record carries the seed.
\<close>

theorem running_balance_backward_witness:
  "ParseAccountHistory parseLocalNumeric page_newest_first = (out_newest_first, None)
   \<and> Suc 0 < length out_newest_first
   \<and> Balance (out_newest_first ! 0) =
       Balance (out_newest_first ! Suc 0) + Credit (out_newest_first ! Suc 0)
         - Debit (out_newest_first ! Suc 0)
   \<and> out_newest_first \<noteq> []
   \<and> ParseAccountBalance page_newest_first = Inr (Balance (last out_newest_first))"
proof -
  have len: "Suc 0 < length out_newest_first" and ne: "out_newest_first \<noteq> []"
    by (simp_all add: out_newest_first_def)
  show ?thesis
    using running_balance_backward[OF rows_newest_first no_balance_column_newest_first
        eval_newest_first] len ne eval_newest_first
    by blast
qed

text \<open>
  C1 as stated fails on the same page: the later record's balance 10000 is not the
  earlier record's 10450 plus its own credit 450, and the first record's balance 10450 is
  not the seed 10000 minus its debit 450.
\<close>

theorem running_balance_forward_counterexample:
  "ParseAccountHistory parseLocalNumeric page_newest_first = (out_newest_first, None)
   \<and> \<not> hasBalance (hd (history_rows page_newest_first))
   \<and> ParseAccountBalance page_newest_first = Inr 10000
   \<and> Balance (out_newest_first ! 1) \<noteq>
       Balance (out_newest_first ! 0) + Credit (out_newest_first ! 1) - Debit (out_newest_first ! 1)
   \<and> Balance (out_newest_first ! 0) \<noteq>
       10000 + Credit (out_newest_first ! 0) - Debit (out_newest_first ! 0)"
proof -
  have nb: "\<not> hasBalance (hd (history_rows page_newest_first))"
    using no_balance_column_newest_first by (simp add: rows_newest_first)
  have a: "Balance (out_newest_first ! 1) \<noteq>
       Balance (out_newest_first ! 0) + Credit (out_newest_first ! 1) - Debit (out_newest_first ! 1)"
    by (simp add: out_newest_first_def)
  have b: "Balance (out_newest_first ! 0) \<noteq>
       10000 + Credit (out_newest_first ! 0) - Debit (out_newest_first ! 0)"
    by (simp add: out_newest_first_def)
  show ?thesis using eval_newest_first nb seed_newest_first a b by (intro conjI)
qed

section \<open>C2: the money parser\<close>

text \<open>
  C2. \<open>parseMoney\<close> strips every \<open>$\<close>, \<open>,\<close> and \<open>.\<close> and parses the rest as a
  base-10 signed 64-bit integer: it returns a value exactly when the stripped text is an
  optional sign and at least one digit that denote an integer of 64 bits, and the value
  is that integer; on every other text it returns an error. In particular
  \<open>"$1,234.56"\<close> gives 123456, \<open>"12.00"\<close> gives 1200, and \<open>""\<close> and \<open>"abc"\<close>
  give an error.
\<close>

theorem parseMoney_decimal:
  "(case parseMoney v of
      Inl e \<Rightarrow> decimal_int64 (stripped v) = None
    | Inr x \<Rightarrow> decimal_int64 (stripped v) = Some (sint x))
   \<and> parseMoney ''$1,234.56'' = Inr 123456
   \<and> parseMoney ''12.00'' = Inr 1200
   \<and> parseMoney [] = Inl ErrSyntax
   \<and> parseMoney ''abc'' = Inl ErrSyntax"
proof -
  have general: "case parseMoney v of
      Inl e \<Rightarrow> decimal_int64 (stripped v) = None
    | Inr x \<Rightarrow> decimal_int64 (stripped v) = Some (sint x)"
    using ParseInt_decimal[of "stripped v"] by (simp add: parseMoney_def stripped_filter)
  have e1: "parseMoney ''$1,234.56'' = Inr 123456" by code_simp
  have e2: "parseMoney ''12.00'' = Inr 1200" by code_simp
  have e3: "parseMoney [] = Inl ErrSyntax" by code_simp
  have e4: "parseMoney ''abc'' = Inl ErrSyntax" by code_simp
  show ?thesis using general e1 e2 e3 e4 by simp
qed

section \<open>C3: a table without data rows\<close>

text \<open>
  C3, as the code has it. A table without any row, not even a header row, is refused
  with the "no account history" error and no records. A table that has its header row
  only is not refused for being empty: the result has no records, and the only error it
  can carry is the balance extractor's, when the header has no balance column.
\<close>

theorem no_rows_is_the_only_empty_history:
  "(history_rows page = [] \<longrightarrow> ParseAccountHistory pl page = ([], Some ErrNoHistory))
   \<and> (\<forall>header. history_rows page = [header] \<longrightarrow>
         ParseAccountHistory pl page =
           ([], if hasBalance header then None
                else case ParseAccountBalance page of Inl err \<Rightarrow> Some err | Inr balance \<Rightarrow> None))"
proof -
  have a: "history_rows page = [] \<longrightarrow> ParseAccountHistory pl page = ([], Some ErrNoHistory)"
    by (simp add: ParseAccountHistory_def)
  have b: "ParseAccountHistory pl page =
           ([], if hasBalance header then None
                else case ParseAccountBalance page of Inl err \<Rightarrow> Some err | Inr balance \<Rightarrow> None)"
    if "history_rows page = [header]" for header
    using ParseAccountHistory_rows[OF that, of pl] by (simp split: sum.splits)
  show ?thesis using a b by blast
qed

theorem no_rows_is_the_only_empty_history_witness:
  "history_rows page_empty = []
   \<and> ParseAccountHistory parseLocalNumeric page_empty = ([], Some ErrNoHistory)
   \<and> history_rows page_header_only =
        [[''Date'', ''Description'', ''Debit'', ''Credit'', ''Account Balance'']]
   \<and> hasBalance [''Date'', ''Description'', ''Debit'', ''Credit'', ''Account Balance'']
   \<and> ParseAccountHistory parseLocalNumeric page_header_only = ([], None)"
proof -
  have e: "history_rows page_empty = []" by (simp add: page_empty_def)
  have r: "history_rows page_header_only =
        [[''Date'', ''Description'', ''Debit'', ''Credit'', ''Account Balance'']]"
    by (simp add: page_header_only_def)
  have hb: "hasBalance [''Date'', ''Description'', ''Debit'', ''Credit'', ''Account Balance'']"
    by code_simp
  show ?thesis
    using no_rows_is_the_only_empty_history[of page_empty parseLocalNumeric]
      no_rows_is_the_only_empty_history[of page_header_only parseLocalNumeric] e r hb
    by simp
qed

text \<open>
  C3 as stated fails on a header-only table with a balance column: the call succeeds,
  with no error and an empty history.
\<close>

theorem header_only_counterexample:
  "history_rows page_header_only =
     [[''Date'', ''Description'', ''Debit'', ''Credit'', ''Account Balance'']]
   \<and> ParseAccountHistory parseLocalNumeric page_header_only = ([], None)"
  using eval_header_only by (simp add: page_header_only_def)

section \<open>C4: no balance column and no seed\<close>

text \<open>
  C4. When no header cell contains "Balance" and the balance extractor fails, the
  reconstruction returns no records and an error: the extractor's own error when the
  table has a header row, and the "no account history" error when the table has no row
  at all. The extractor's error is "not found" when no balance element matches.
\<close>

theorem balance_failure_propagates:
  assumes "history_rows page \<noteq> [] \<longrightarrow> \<not> hasBalance (hd (history_rows page))"
    and "ParseAccountBalance page = Inl err"
  shows "ParseAccountHistory pl page =
           ([], Some (if history_rows page = [] then ErrNoHistory else err))
       \<and> (balance_texts page = [] \<longrightarrow> err = ErrNoBalance)"
proof -
  have nf: "balance_texts page = [] \<longrightarrow> err = ErrNoBalance"
    using assms(2) by (auto simp: ParseAccountBalance_def)
  show ?thesis
  proof (cases "history_rows page")
    case Nil
    then show ?thesis using nf by (simp add: ParseAccountHistory_def)
  next
    case (Cons header data)
    then have "\<not> hasBalance header" using assms(1) by simp
    then show ?thesis using ParseAccountHistory_rows[OF Cons, of pl] assms(2) Cons nf by simp
  qed
qed

theorem balance_failure_propagates_witness:
  "history_rows page_no_seed \<noteq> []
   \<and> \<not> hasBalance (hd (history_rows page_no_seed))
   \<and> balance_texts page_no_seed = []
   \<and> ParseAccountBalance page_no_seed = Inl ErrNoBalance
   \<and> ParseAccountHistory parseLocalNumeric page_no_seed = ([], Some ErrNoBalance)"
proof -
  have n: "\<not> hasBalance (hd (history_rows page_no_seed))" by code_simp
  then have h: "history_rows page_no_seed \<noteq> [] \<longrightarrow> \<not> hasBalance (hd (history_rows page_no_seed))"
    by simp
  have b: "ParseAccountBalance page_no_seed = Inl ErrNoBalance" by code_simp
  have r: "history_rows page_no_seed \<noteq> []" and t: "balance_texts page_no_seed = []"
    by (simp_all add: page_no_seed_def)
  show ?thesis
    using balance_failure_propagates[OF h b, of parseLocalNumeric] n b r t by simp
qed

section \<open>C5: the order of the output\<close>

text \<open>
  C5, as the code has it. The reconstruction does not sort: its output is the data rows
  in reverse source order. So the dates of the output are the dates read from the rows,
  reversed, and they are non-decreasing whenever the rows come newest first, that is
  whenever the dates read from them are non-increasing in source order.
\<close>

theorem reverse_source_order:
  assumes "ParseAccountHistory pl page = (out, None)"
  shows "map Date out =
           rev (map (\<lambda>cells. Date (build_record pl (hd (history_rows page)) cells))
                  (tl (history_rows page)))
       \<and> (sorted_wrt (\<ge>) (map (\<lambda>cells. Date (build_record pl (hd (history_rows page)) cells))
                             (tl (history_rows page)))
            \<longrightarrow> sorted (map Date out))"
proof -
  obtain header data balance where
    rows: "history_rows page = header # data" and
    out: "out = index_loop 0 0 (snd (row_loop pl header
             (hasBalance header) balance [] data))"
    using assms by (rule ParseAccountHistory_success)
  have m: "map Date out = rev (map (\<lambda>cells. Date (build_record pl header cells)) data)"
    unfolding out by (simp add: index_loop_Date row_loop_Date)
  have "sorted (rev xs) = sorted_wrt (\<ge>) xs" for xs :: "int list"
    by (simp add: sorted_wrt_rev)
  then show ?thesis using m rows by simp
qed

theorem reverse_source_order_witness:
  "ParseAccountHistory parseLocalNumeric page_newest_first = (out_newest_first, None)
   \<and> sorted_wrt (\<ge>)
        (map (\<lambda>cells. Date (build_record parseLocalNumeric (hd (history_rows page_newest_first)) cells))
           (tl (history_rows page_newest_first)))
   \<and> sorted (map Date out_newest_first)"
proof -
  have s: "sorted_wrt (\<ge>)
        (map (\<lambda>cells. Date (build_record parseLocalNumeric (hd (history_rows page_newest_first)) cells))
           (tl (history_rows page_newest_first)))"
    by code_simp
  show ?thesis using reverse_source_order[OF eval_newest_first] s eval_newest_first by blast
qed

text \<open>
  C5 as stated fails on a page that lists its rows oldest first: the output starts with
  January 3 and ends with January 2.
\<close>

theorem oldest_first_counterexample:
  "ParseAccountHistory parseLocalNumeric page_oldest_first = (out_oldest_first, None)
   \<and> Date (out_oldest_first ! 1) < Date (out_oldest_first ! 0)"
proof -
  have "Date (out_oldest_first ! 1) < Date (out_oldest_first ! 0)"
    by (simp add: out_oldest_first_def)
  then show ?thesis using eval_oldest_first by simp
qed

section \<open>C6: the index law\<close>

text \<open>
  C6. In the output, the index of a record is one more than the number of records
  immediately before it that have its date: within a maximal run of equal dates the
  indices are 1, 2, 3, \<dots> in output order. The first record of the output and every
  record whose date differs from its predecessor's have index 1.
\<close>

theorem index_law:
  assumes "out = fst (ParseAccountHistory pl page)"
  shows "(\<forall>i<length out.
            Index (out ! i) =
              1 + int (length (takeWhile (\<lambda>r. Date r = Date (out ! i)) (rev (take i out)))))
       \<and> (\<forall>i<length out. (i = 0 \<or> Date (out ! i) \<noteq> Date (out ! (i - 1))) \<longrightarrow> Index (out ! i) = 1)"
proof -
  obtain h where out: "out = index_loop 0 0 h"
    using ParseAccountHistory_index_loop[of pl page] assms by auto
  have len: "length out = length h" by (simp add: out index_loop_length)
  have first: "out \<noteq> [] \<Longrightarrow> Index (out ! 0) = 1"
    unfolding out by (rule index_loop_first)
  have step: "\<And>i. Suc i < length out \<Longrightarrow> Index (out ! Suc i) =
       (if Date (out ! Suc i) = Date (out ! i) then Index (out ! i) + 1 else 1)"
    unfolding out using index_loop_next[of _ h] by (simp add: index_loop_length)
  have run: "\<And>i. i < length out \<Longrightarrow>
     Index (out ! i) = 1 + int (length (takeWhile (\<lambda>r. Date r = Date (out ! i)) (rev (take i out))))"
    using first step by (rule run_position)
  have restart: "Index (out ! i) = 1"
    if "i < length out" "i = 0 \<or> Date (out ! i) \<noteq> Date (out ! (i - 1))" for i
  proof (cases i)
    case 0
    then show ?thesis using first that by auto
  next
    case (Suc j)
    then show ?thesis using step[of j] that by simp
  qed
  show ?thesis using run restart by blast
qed

theorem index_law_witness:
  "out_times = fst (ParseAccountHistory parseLocalNumeric page_times)
   \<and> 2 < length out_times
   \<and> Index (out_times ! 2) =
       1 + int (length (takeWhile (\<lambda>r. Date r = Date (out_times ! 2)) (rev (take 2 out_times))))
   \<and> Index (out_times ! 2) = 2
   \<and> 3 < length out_times
   \<and> Date (out_times ! 3) \<noteq> Date (out_times ! (3 - 1))
   \<and> Index (out_times ! 3) = 1"
proof -
  have o: "out_times = fst (ParseAccountHistory parseLocalNumeric page_times)"
    by (simp add: eval_times)
  have l2: "2 < length out_times" and l3: "3 < length out_times"
    by (simp_all add: out_times_def)
  have d: "Date (out_times ! 3) \<noteq> Date (out_times ! (3 - 1))"
    by (simp add: out_times_def)
  have i2: "Index (out_times ! 2) = 2" by (simp add: out_times_def)
  note law = index_law[OF o]
  have run: "Index (out_times ! 2) =
       1 + int (length (takeWhile (\<lambda>r. Date r = Date (out_times ! 2)) (rev (take 2 out_times))))"
    using law l2 by blast
  have restart: "Index (out_times ! 3) = 1"
    using law l3 d by blast
  show ?thesis using o l2 run i2 l3 d restart by (intro conjI)
qed

section \<open>C7: one record for each data row\<close>

text \<open>
  C7. Whenever the reconstruction succeeds, the table has a header row and the number of
  records returned is the number of the rows after it, whatever the cells hold and
  whether or not the headers have a handler.
\<close>

theorem row_count:
  assumes "ParseAccountHistory pl page = (out, None)"
  shows "\<exists>header data. history_rows page = header # data \<and> length out = length data"
proof -
  obtain header data balance where
    rows: "history_rows page = header # data" and
    out: "out = index_loop 0 0 (snd (row_loop pl header (hasBalance header) balance [] data))"
    using assms by (rule ParseAccountHistory_success)
  have "length out = length data" using rows assms by (rule output_length)
  then show ?thesis using rows by simp
qed

text \<open>
  The page with the times of day has four data rows, one of them with a date that
  cannot be read; it gives four records.
\<close>

theorem row_count_witness:
  "ParseAccountHistory parseLocalNumeric page_times = (out_times, None)
   \<and> (\<exists>header data. history_rows page_times = header # data \<and> length out_times = length data)
   \<and> length out_times = 4"
proof -
  have "length out_times = 4" by (simp add: out_times_def)
  then show ?thesis using row_count[OF eval_times] eval_times by blast
qed

section \<open>C8: the seed is the most recent balance\<close>



section \<open>C9: debit and credit\<close>

text \<open>
  C9, as the code has it. In the record of a data row, \<open>Debit\<close> is zero when no header
  cell is "Debit" and when every cell of the row under such a header is blank after
  trimming; it is not negative when no cell of the row under such a header holds a
  minus sign. The same holds of \<open>Credit\<close>. The money parser reads a signed integer, so a
  cell with a minus sign gives a negative amount.
\<close>

theorem debit_credit_values:
  assumes rows: "history_rows page = header # data"
    and ok: "ParseAccountHistory pl page = (out, None)"
    and i: "i < length data"
  shows "(''Debit'' \<notin> set header \<longrightarrow> Debit (out ! (length data - 1 - i)) = 0)
       \<and> (''Credit'' \<notin> set header \<longrightarrow> Credit (out ! (length data - 1 - i)) = 0)
       \<and> ((\<forall>j<length header. header ! j = ''Debit'' \<longrightarrow> TrimSpace (Text_At (data ! i) j) = [])
            \<longrightarrow> Debit (out ! (length data - 1 - i)) = 0)
       \<and> ((\<forall>j<length header. header ! j = ''Credit'' \<longrightarrow> TrimSpace (Text_At (data ! i) j) = [])
            \<longrightarrow> Credit (out ! (length data - 1 - i)) = 0)
       \<and> ((\<forall>j<length header. header ! j = ''Debit'' \<longrightarrow> CHR ''-'' \<notin> set (Text_At (data ! i) j))
            \<longrightarrow> 0 \<le> sint (Debit (out ! (length data - 1 - i))))
       \<and> ((\<forall>j<length header. header ! j = ''Credit'' \<longrightarrow> CHR ''-'' \<notin> set (Text_At (data ! i) j))
            \<longrightarrow> 0 \<le> sint (Credit (out ! (length data - 1 - i))))"
proof -
  note eq = output_Debit_Credit[OF rows ok i]
  have a: "''Debit'' \<notin> set header \<longrightarrow> Debit (out ! (length data - 1 - i)) = 0"
  proof
    assume "''Debit'' \<notin> set header"
    then have "\<forall>j<length header. header ! j = ''Debit'' \<longrightarrow> TrimSpace (Text_At (data ! i) j) = []"
      by (rule absent_column)
    then show "Debit (out ! (length data - 1 - i)) = 0"
      unfolding eq by (rule build_record_Debit_blank)
  qed
  have b: "''Credit'' \<notin> set header \<longrightarrow> Credit (out ! (length data - 1 - i)) = 0"
  proof
    assume "''Credit'' \<notin> set header"
    then have "\<forall>j<length header. header ! j = ''Credit'' \<longrightarrow> TrimSpace (Text_At (data ! i) j) = []"
      by (rule absent_column)
    then show "Credit (out ! (length data - 1 - i)) = 0"
      unfolding eq by (rule build_record_Credit_blank)
  qed
  have c: "(\<forall>j<length header. header ! j = ''Debit'' \<longrightarrow> TrimSpace (Text_At (data ! i) j) = [])
            \<longrightarrow> Debit (out ! (length data - 1 - i)) = 0"
    unfolding eq using build_record_Debit_blank by blast
  have d: "(\<forall>j<length header. header ! j = ''Credit'' \<longrightarrow> TrimSpace (Text_At (data ! i) j) = [])
            \<longrightarrow> Credit (out ! (length data - 1 - i)) = 0"
    unfolding eq using build_record_Credit_blank by blast
  have e: "(\<forall>j<length header. header ! j = ''Debit'' \<longrightarrow> CHR ''-'' \<notin> set (Text_At (data ! i) j))
            \<longrightarrow> 0 \<le> sint (Debit (out ! (length data - 1 - i)))"
    unfolding eq using build_record_Debit_nonneg by blast
  have f: "(\<forall>j<length header. header ! j = ''Credit'' \<longrightarrow> CHR ''-'' \<notin> set (Text_At (data ! i) j))
            \<longrightarrow> 0 \<le> sint (Credit (out ! (length data - 1 - i)))"
    unfolding eq using build_record_Credit_nonneg by blast
  show ?thesis using a b c d e f by (intro conjI)
qed

text \<open>
  The page with the times of day has neither column; on the page listed newest first,
  the first data row has a blank debit cell and the credit cell \<open>4.50\<close>.
\<close>

theorem debit_credit_values_witness:
  "ParseAccountHistory parseLocalNumeric page_times = (out_times, None)
   \<and> ''Debit'' \<notin> set [''Date'', ''Description'', ''Account Balance'']
   \<and> ''Credit'' \<notin> set [''Date'', ''Description'', ''Account Balance'']
   \<and> Debit (out_times ! 3) = 0 \<and> Credit (out_times ! 3) = 0
   \<and> ParseAccountHistory parseLocalNumeric page_newest_first = (out_newest_first, None)
   \<and> TrimSpace (Text_At [''01/03/2023'', ''Refund'', '''', ''4.50''] 2) = []
   \<and> CHR ''-'' \<notin> set (Text_At [''01/03/2023'', ''Refund'', '''', ''4.50''] 3)
   \<and> Debit (out_newest_first ! 1) = 0
   \<and> 0 \<le> sint (Credit (out_newest_first ! 1))"
proof -
  let ?header = "[''Date'', ''Description'', ''Debit'', ''Credit'']"
  let ?cells = "[''01/03/2023'', ''Refund'', '''', ''4.50'']"
  let ?data = "[?cells, [''01/02/2023'', ''Coffee'', ''4.50'', '''']]"
  have rt: "history_rows page_times =
      [''Date'', ''Description'', ''Account Balance'']
      # [[''01/03/2023 14:00'', ''Transfer'', ''30.00''],
         [''01/03/2023 09:30'', ''Deposit'', ''20.00''],
         [''01/03/2023 09:30'', ''Coffee'', ''10.00''],
         [''pending'', ''Hold'', ''5.00'']]"
    by (simp add: page_times_def)
  have absent: "''Debit'' \<notin> set [''Date'', ''Description'', ''Account Balance'']"
      "''Credit'' \<notin> set [''Date'', ''Description'', ''Account Balance'']"
    by simp_all
  have i0: "0 < length [[''01/03/2023 14:00'', ''Transfer'', ''30.00''],
         [''01/03/2023 09:30'', ''Deposit'', ''20.00''],
         [''01/03/2023 09:30'', ''Coffee'', ''10.00''],
         [''pending'', ''Hold'', ''5.00'']]"
    by simp
  have pos: "length [[''01/03/2023 14:00'', ''Transfer'', ''30.00''],
         [''01/03/2023 09:30'', ''Deposit'', ''20.00''],
         [''01/03/2023 09:30'', ''Coffee'', ''10.00''],
         [''pending'', ''Hold'', ''5.00'']] - 1 - 0 = 3"
    by simp
  have zero: "Debit (out_times ! 3) = 0 \<and> Credit (out_times ! 3) = 0"
    using debit_credit_values[OF rt eval_times i0] absent unfolding pos by blast
  have blank: "TrimSpace (Text_At ?cells 2) = []" by code_simp
  have plus: "CHR ''-'' \<notin> set (Text_At ?cells 3)" by code_simp
  have j: "j = 0 \<or> j = 1 \<or> j = 2 \<or> j = 3" if "j < length ?header" for j
    using that by auto
  have all_blank: "\<forall>j<length ?header. ?header ! j = ''Debit'' \<longrightarrow> TrimSpace (Text_At (?data ! 0) j) = []"
  proof (intro allI impI)
    fix j assume lt: "j < length ?header" and d: "?header ! j = ''Debit''"
    have "j = 0 \<or> j = 1 \<or> j = 2 \<or> j = 3" using lt by (rule j)
    then have "j = 2" using d by auto
    then show "TrimSpace (Text_At (?data ! 0) j) = []" using blank by simp
  qed
  have all_plus: "\<forall>j<length ?header. ?header ! j = ''Credit'' \<longrightarrow> CHR ''-'' \<notin> set (Text_At (?data ! 0) j)"
  proof (intro allI impI)
    fix j assume lt: "j < length ?header" and d: "?header ! j = ''Credit''"
    have "j = 0 \<or> j = 1 \<or> j = 2 \<or> j = 3" using lt by (rule j)
    then have "j = 3" using d by auto
    then show "CHR ''-'' \<notin> set (Text_At (?data ! 0) j)" using plus by simp
  qed
  have i: "0 < length ?data" by simp
  have pos1: "length ?data - 1 - 0 = 1" by simp
  have nf: "Debit (out_newest_first ! 1) = 0 \<and> 0 \<le> sint (Credit (out_newest_first ! 1))"
    using debit_credit_values[OF rows_newest_first eval_newest_first i] all_blank all_plus
    unfolding pos1 by blast
  show ?thesis using eval_times absent zero eval_newest_first blank plus nf by blast
qed

text \<open>
  C9 as stated fails on a debit cell that reads \<open>-5.00\<close>: the record's debit is -500.
\<close>

theorem negative_debit_counterexample:
  "ParseAccountHistory parseLocalNumeric page_negative_debit = (out_negative_debit, None)
   \<and> sint (Debit (out_negative_debit ! 0)) = - 500"
proof -
  have "sint (Debit (out_negative_debit ! 0)) = - 500" by (simp add: out_negative_debit_def)
  then show ?thesis using eval_negative_debit by simp
qed

section \<open>C10: records are grouped by instant\<close>

text \<open>
  C10, as the code has it. The index pass compares the stored \<open>Date\<close> values as
  instants, not as calendar days. A record continues its predecessor's count exactly
  when the two dates are equal, and restarts at 1 otherwise; so of two adjacent records
  on the same calendar day at different times of day, the later one has index 1. A
  record has index 1 exactly when it is the first record or its date differs from its
  predecessor's, so the earlier record of such a pair has index 1 only in these two
  cases. A first record whose date is the zero value, as after a failed date parse,
  equals the initial cursor and still has index 1.
\<close>

theorem index_by_instant:
  assumes "out = fst (ParseAccountHistory pl page)"
  shows "(\<forall>i. Suc i < length out \<longrightarrow>
            Index (out ! Suc i) =
              (if Date (out ! Suc i) = Date (out ! i) then Index (out ! i) + 1 else 1))
       \<and> (\<forall>i. Suc i < length out
              \<and> calendar_day (Date (out ! Suc i)) = calendar_day (Date (out ! i))
              \<and> Date (out ! Suc i) \<noteq> Date (out ! i) \<longrightarrow> Index (out ! Suc i) = 1)
       \<and> (\<forall>i<length out.
              (Index (out ! i) = 1) = (i = 0 \<or> Date (out ! i) \<noteq> Date (out ! (i - 1))))
       \<and> (out \<noteq> [] \<and> Date (out ! 0) = 0 \<longrightarrow> Index (out ! 0) = 1)"
proof -
  obtain h where out: "out = index_loop 0 0 h"
    using ParseAccountHistory_index_loop[of pl page] assms by auto
  have first: "out \<noteq> [] \<Longrightarrow> Index (out ! 0) = 1"
    unfolding out by (rule index_loop_first)
  have step: "\<And>i. Suc i < length out \<Longrightarrow> Index (out ! Suc i) =
       (if Date (out ! Suc i) = Date (out ! i) then Index (out ! i) + 1 else 1)"
    unfolding out using index_loop_next[of _ h] by (simp add: index_loop_length)
  have pos: "1 \<le> Index (out ! i)" if "i < length out" for i
    using run_position[of out i, OF first step that] by simp
  have one: "(Index (out ! i) = 1) = (i = 0 \<or> Date (out ! i) \<noteq> Date (out ! (i - 1)))"
    if i: "i < length out" for i
  proof (cases i)
    case 0
    then show ?thesis using first i by auto
  next
    case (Suc j)
    have j: "j < length out" using i Suc by simp
    have "Index (out ! Suc j) =
       (if Date (out ! Suc j) = Date (out ! j) then Index (out ! j) + 1 else 1)"
      using step i Suc by simp
    moreover have "1 \<le> Index (out ! j)" using j by (rule pos)
    ultimately show ?thesis using Suc by auto
  qed
  have a: "\<forall>i. Suc i < length out \<longrightarrow>
            Index (out ! Suc i) =
              (if Date (out ! Suc i) = Date (out ! i) then Index (out ! i) + 1 else 1)"
    using step by blast
  have b: "\<forall>i. Suc i < length out
              \<and> calendar_day (Date (out ! Suc i)) = calendar_day (Date (out ! i))
              \<and> Date (out ! Suc i) \<noteq> Date (out ! i) \<longrightarrow> Index (out ! Suc i) = 1"
    using step by simp
  have c: "\<forall>i<length out.
              (Index (out ! i) = 1) = (i = 0 \<or> Date (out ! i) \<noteq> Date (out ! (i - 1)))"
    using one by blast
  have d: "out \<noteq> [] \<and> Date (out ! 0) = 0 \<longrightarrow> Index (out ! 0) = 1"
    using first by blast
  show ?thesis using a b c d by (intro conjI)
qed

text \<open>
  On the page with the times of day, the transfer of 14:00 follows the deposit of 09:30
  of the same day and has index 1; the deposit has the date of the coffee before it and
  continues its count with index 2; the hold, whose date could not be read, comes first
  with the zero date and index 1.
\<close>

theorem index_by_instant_witness:
  "out_times = fst (ParseAccountHistory parseLocalNumeric page_times)
   \<and> Suc 2 < length out_times
   \<and> calendar_day (Date (out_times ! Suc 2)) = calendar_day (Date (out_times ! 2))
   \<and> Date (out_times ! Suc 2) \<noteq> Date (out_times ! 2)
   \<and> Index (out_times ! Suc 2) = 1
   \<and> Date (out_times ! Suc 1) = Date (out_times ! 1)
   \<and> Index (out_times ! Suc 1) = Index (out_times ! 1) + 1
   \<and> 1 < length out_times
   \<and> Date (out_times ! 1) \<noteq> Date (out_times ! (1 - 1))
   \<and> Index (out_times ! 1) = 1
   \<and> out_times \<noteq> [] \<and> Date (out_times ! 0) = 0 \<and> Index (out_times ! 0) = 1"
proof -
  have o: "out_times = fst (ParseAccountHistory parseLocalNumeric page_times)"
    by (simp add: eval_times)
  have l: "Suc 2 < length out_times" "Suc 1 < length out_times" "out_times \<noteq> []"
      "1 < length out_times"
    by (simp_all add: out_times_def)
  have day: "calendar_day (Date (out_times ! Suc 2)) = calendar_day (Date (out_times ! 2))"
    by (simp add: out_times_def calendar_day_def)
  have time: "Date (out_times ! Suc 2) \<noteq> Date (out_times ! 2)"
    by (simp add: out_times_def)
  have same: "Date (out_times ! Suc 1) = Date (out_times ! 1)"
    by (simp add: out_times_def)
  have other: "Date (out_times ! 1) \<noteq> Date (out_times ! (1 - 1))"
    by (simp add: out_times_def)
  have zero: "Date (out_times ! 0) = 0" by (simp add: out_times_def)
  note law = index_by_instant[OF o]
  have restart: "Index (out_times ! Suc 2) = 1"
    using law l(1) day time by blast
  have "Index (out_times ! Suc 1) =
      (if Date (out_times ! Suc 1) = Date (out_times ! 1) then Index (out_times ! 1) + 1 else 1)"
    using law l(2) by blast
  then have continue: "Index (out_times ! Suc 1) = Index (out_times ! 1) + 1"
    using same by simp
  have "(Index (out_times ! 1) = 1) =
      (1 = (0::nat) \<or> Date (out_times ! 1) \<noteq> Date (out_times ! (1 - 1)))"
    using law l(4) by blast
  then have starts: "Index (out_times ! 1) = 1" using other by blast
  have first: "Index (out_times ! 0) = 1"
    using law l(3) zero by blast
  show ?thesis
    using o l(1) day time restart same continue l(4) other starts l(3) zero first
    by (intro conjI)
qed

text \<open>
  C10 as stated fails on the same page: the deposit of 09:30 and the transfer of 14:00
  are adjacent, on the same calendar day and at different times, and the deposit has
  index 2, not 1, because the coffee before it has its very date.
\<close>

theorem same_day_pair_counterexample:
  "ParseAccountHistory parseLocalNumeric page_times = (out_times, None)
   \<and> calendar_day (Date (out_times ! 3)) = calendar_day (Date (out_times ! 2))
   \<and> Date (out_times ! 3) \<noteq> Date (out_times ! 2)
   \<and> Index (out_times ! 3) = 1
   \<and> Index (out_times ! 2) = 2
   \<and> Index (out_times ! 2) \<noteq> 1"
proof -
  have day: "calendar_day (Date (out_times ! 3)) = calendar_day (Date (out_times ! 2))"
    by (simp add: out_times_def calendar_day_def)
  have time: "Date (out_times ! 3) \<noteq> Date (out_times ! 2)"
    by (simp add: out_times_def)
  have i3: "Index (out_times ! 3) = 1" by (simp add: out_times_def)
  have i2: "Index (out_times ! 2) = 2" by (simp add: out_times_def)
  have n2: "Index (out_times ! 2) \<noteq> 1" by (simp add: out_times_def)
  show ?thesis using eval_times day time i3 i2 n2 by (intro conjI)
qed

end
